theory Spec2Isabelle
  imports Complex_Main "HOL-Library.Sublist"
begin

section \<open>The recorder of v3gyazio.py\<close>

text \<open>
  The development embeds \<^verbatim>\<open>RecorderThread\<close> of \<^verbatim>\<open>src/v3gyazio.py\<close>: its control
  methods \<^verbatim>\<open>pause\<close>, \<^verbatim>\<open>resume\<close>, \<^verbatim>\<open>stop\<close> and its \<^verbatim>\<open>run\<close> method (capture loop,
  assembly, upload, cleanup).

  Everything \<^verbatim>\<open>run\<close> obtains from outside is an input of the model: the calls of the
  controlling thread that land between two reads of the flags, the clock readings, and the
  outcome of each library call that can raise (\<^verbatim>\<open>sct.grab\<close>, \<^verbatim>\<open>img.save\<close>,
  \<^verbatim>\<open>imageio.mimsave\<close>, \<^verbatim>\<open>requests.post\<close>). Everything it does to the outside is either a
  change of the file system or an entry of a trace of effects.

  Clock readings and durations are real numbers: the rounding of Python's floats is not
  modelled. The file system is a map from paths to files in which writing and removing a
  file of the session's own directory succeed unless the input says otherwise.
\<close>

subsection \<open>Files, JSON values, effects\<close>

type_synonym raster = string

datatype fsnode = Dir | Png raster | Gif "raster list" int

type_synonym filesystem = "string \<rightharpoonup> fsnode"

datatype json =
    JNull
  | JBool bool
  | JNum real
  | JStr string
  | JArr "json list"
  | JObj "(string \<times> json) list"

record response =
  status_code :: int
  body :: "json option"

datatype effect =
    Progress string
  | Finished string
  | Sleep real
  | Grab "int \<times> int \<times> int \<times> int"
  | Save string raster
  | Post string string

subsection \<open>The recorder object and its control methods\<close>

text \<open>
  The fields \<^verbatim>\<open>_pause\<close> and \<^verbatim>\<open>_stop\<close> are \<open>pause_flag\<close> and \<open>stop_flag\<close> (an
  identifier cannot start with an underscore).
\<close>

record recorder =
  bbox :: "int \<times> int \<times> int \<times> int"
  fps :: int
  server_url :: "string option"
  pause_flag :: bool
  stop_flag :: bool
  tmpdir :: string

text \<open>
  \<^verbatim>\<open>__init__\<close>: \<open>d\<close> is the directory that \<^verbatim>\<open>tempfile.mkdtemp\<close> creates.
\<close>

definition RecorderThread ::
  "int \<times> int \<times> int \<times> int \<Rightarrow> int \<Rightarrow> string option \<Rightarrow> string \<Rightarrow> filesystem
     \<Rightarrow> recorder \<times> filesystem" where
  "RecorderThread b f u d fs0 =
     (\<lparr>bbox = b, fps = f, server_url = u, pause_flag = False, stop_flag = False, tmpdir = d\<rparr>,
      fs0(d \<mapsto> Dir))"

definition pause :: "recorder \<Rightarrow> recorder" where
  "pause r = r\<lparr>pause_flag := True\<rparr>"

definition resume :: "recorder \<Rightarrow> recorder" where
  "resume r = r\<lparr>pause_flag := False\<rparr>"

definition stop :: "recorder \<Rightarrow> recorder" where
  "stop r = r\<lparr>stop_flag := True\<rparr>"

text \<open>
  The names the specification gives to the states of a session, read off the two flags.
  \<open>Stopping\<close> stands for every state in which the stop flag is set: \<^verbatim>\<open>run\<close> never clears
  the flag, so it also covers the session after \<^verbatim>\<open>run\<close> has returned.
\<close>

datatype session_state = Running | Paused | Stopping

definition session_state :: "recorder \<Rightarrow> session_state" where
  "session_state r =
     (if stop_flag r then Stopping else if pause_flag r then Paused else Running)"

subsection \<open>The state of \<^verbatim>\<open>run\<close> and its inputs\<close>

record state =
  self :: recorder
  frame_num :: nat
  frame_paths :: "string list"
  fs :: filesystem
  trace :: "effect list"

datatype cmd = Pause | Resume | Stop

text \<open>
  \<open>Save_fails e left\<close>: \<^verbatim>\<open>img.save\<close> raises \<open>e\<close>; \<open>left\<close> is the truncated file it leaves
  behind, if any.
\<close>

datatype save_outcome = Save_ok | Save_fails string "raster option"

text \<open>
  One pass through the body of \<^verbatim>\<open>while not self._stop\<close>. The loop reads the flags at two
  places, so the calls of the controlling thread are given in two batches: those that take
  effect before the loop reads \<^verbatim>\<open>self._stop\<close>, and those that take effect between that read
  and the read of \<^verbatim>\<open>self._pause\<close>. \<open>t0\<close> and \<open>t1\<close> are the two readings of \<^verbatim>\<open>time.time()\<close>;
  \<open>grab\<close> is the outcome of \<^verbatim>\<open>sct.grab\<close> and \<^verbatim>\<open>Image.frombytes\<close>.
\<close>

record tick =
  before_stop_check :: "cmd list"
  before_pause_check :: "cmd list"
  t0 :: real
  t1 :: real
  grab :: "string + raster"
  save :: save_outcome

record env =
  mss_init :: "string option"
  ticks :: "tick list"
  gif_time :: real
  mimsave :: "string option"
  post :: "string + response"

datatype loop_result = Still_looping state | Left_loop state

datatype run_result = Uncaught string state | Recording state | Returned state

subsection \<open>Python's formatting and truth values\<close>

text \<open>\<^verbatim>\<open>str(n)\<close> of a number that is not negative: its decimal digits.\<close>

definition digit :: "nat \<Rightarrow> char" where
  "digit d = ''0123456789'' ! d"

fun str_nat :: "nat \<Rightarrow> string" where
  "str_nat n =
     (if n < 10 then [digit n]
      else str_nat (n div 10) @ [digit (n mod 10)])"

declare str_nat.simps [simp del]

text \<open>\<^verbatim>\<open>int(x)\<close> of a float truncates towards zero.\<close>

definition py_int :: "real \<Rightarrow> int" where
  "py_int x = (if x < 0 then \<lceil>x\<rceil> else \<lfloor>x\<rfloor>)"

definition str_int :: "int \<Rightarrow> string" where
  "str_int i = (if i < 0 then CHR ''-'' # str_nat (nat (- i)) else str_nat (nat i))"

text \<open>The format \<^verbatim>\<open>06d\<close> of a number that is not negative.\<close>

definition format_06d :: "nat \<Rightarrow> string" where
  "format_06d n = replicate (6 - length (str_nat n)) CHR ''0'' @ str_nat n"

definition path_join :: "string \<Rightarrow> string \<Rightarrow> string" where
  "path_join d name = d @ ''/'' @ name"

definition frame_path_of :: "string \<Rightarrow> nat \<Rightarrow> string" where
  "frame_path_of d n = path_join d (''frame_'' @ format_06d n @ ''.png'')"

text \<open>Line 518: \<^verbatim>\<open>self.tmpdir / f'recording_{int(time.time())}.gif'\<close>, \<open>t\<close> the clock reading.\<close>

definition recording_path :: "string \<Rightarrow> real \<Rightarrow> string" where
  "recording_path d t = path_join d (''recording_'' @ str_int (py_int t) @ ''.gif'')"

definition rstrip_slash :: "string \<Rightarrow> string" where
  "rstrip_slash s = rev (dropWhile (\<lambda>c. c = CHR ''/'') (rev s))"

fun truthy :: "json \<Rightarrow> bool" where
  "truthy JNull = False"
| "truthy (JBool b) = b"
| "truthy (JNum x) = (x \<noteq> 0)"
| "truthy (JStr s) = (s \<noteq> [])"
| "truthy (JArr xs) = (xs \<noteq> [])"
| "truthy (JObj kvs) = (kvs \<noteq> [])"

text \<open>
  \<^verbatim>\<open>r.json().get(key, default)\<close>: of two members with the same key the parser keeps the
  later one; a body that is not an object has no \<^verbatim>\<open>get\<close>.
\<close>

fun json_get :: "json \<Rightarrow> string \<Rightarrow> json \<Rightarrow> string + json" where
  "json_get (JObj kvs) key dflt =
     (case map_of (rev kvs) key of None \<Rightarrow> Inr dflt | Some v \<Rightarrow> Inr v)"
| "json_get _ key dflt = Inl ''AttributeError''"

subsection \<open>File operations\<close>

definition under :: "string \<Rightarrow> string \<Rightarrow> bool" where
  "under d p = (p = d \<or> prefix (d @ ''/'') p)"

definition rmtree :: "string \<Rightarrow> filesystem \<Rightarrow> filesystem" where
  "rmtree d f = (\<lambda>p. if under d p then None else f p)"

definition os_remove :: "filesystem \<Rightarrow> string \<Rightarrow> string + filesystem" where
  "os_remove f p =
     (case f p of
        None \<Rightarrow> Inl ''FileNotFoundError''
      | Some Dir \<Rightarrow> Inl ''IsADirectoryError''
      | Some _ \<Rightarrow> Inr (f(p := None)))"

definition imread :: "filesystem \<Rightarrow> string \<Rightarrow> string + raster" where
  "imread f p =
     (case f p of Some (Png img) \<Rightarrow> Inr img | _ \<Rightarrow> Inl ''imread failed'')"

fun imread_all :: "filesystem \<Rightarrow> string list \<Rightarrow> string + raster list" where
  "imread_all f [] = Inr []"
| "imread_all f (p # ps) =
     (case imread f p of
        Inl e \<Rightarrow> Inl e
      | Inr img \<Rightarrow> (case imread_all f ps of Inl e \<Rightarrow> Inl e | Inr imgs \<Rightarrow> Inr (img # imgs)))"

subsection \<open>Signals and sleeping\<close>

definition emit_progress :: "string \<Rightarrow> state \<Rightarrow> state" where
  "emit_progress s st = st\<lparr>trace := trace st @ [Progress s]\<rparr>"

definition emit_finished :: "string \<Rightarrow> state \<Rightarrow> state" where
  "emit_finished s st = st\<lparr>trace := trace st @ [Finished s]\<rparr>"

definition sleep :: "real \<Rightarrow> state \<Rightarrow> state" where
  "sleep d st = st\<lparr>trace := trace st @ [Sleep d]\<rparr>"

subsection \<open>The capture loop\<close>

fun call :: "cmd \<Rightarrow> recorder \<Rightarrow> recorder" where
  "call Pause r = pause r"
| "call Resume r = resume r"
| "call Stop r = stop r"

definition control :: "cmd list \<Rightarrow> state \<Rightarrow> state" where
  "control cs st = st\<lparr>self := fold call cs (self st)\<rparr>"

text \<open>
  Lines 490 to 506, the body of the loop when the recorder is not paused. \<open>Inl (e, st')\<close>:
  the exception \<open>e\<close> leaves the body in state \<open>st'\<close>.
\<close>

definition iteration :: "real \<Rightarrow> tick \<Rightarrow> state \<Rightarrow> (string \<times> state) + state" where
  "iteration frame_interval k st =
     (let st0 = st\<lparr>trace := trace st @ [Grab (bbox (self st))]\<rparr> in
      case grab k of
        Inl e \<Rightarrow> Inl (e, st0)
      | Inr img \<Rightarrow>
          let frame_path = frame_path_of (tmpdir (self st0)) (frame_num st0) in
          (case save k of
             Save_fails e left \<Rightarrow>
               Inl (e, case left of
                         None \<Rightarrow> st0
                       | Some b \<Rightarrow> st0\<lparr>fs := (fs st0)(frame_path \<mapsto> Png b)\<rparr>)
           | Save_ok \<Rightarrow>
               let st1 = st0\<lparr>fs := (fs st0)(frame_path \<mapsto> Png img),
                             trace := trace st0 @ [Save frame_path img]\<rparr>;
                   st2 = st1\<lparr>frame_paths := frame_paths st1 @ [frame_path]\<rparr>;
                   st3 = st2\<lparr>frame_num := frame_num st2 + 1\<rparr>;
                   elapsed = t1 k - t0 k;
                   to_sleep = frame_interval - elapsed
               in Inr (if to_sleep > 0 then sleep to_sleep st3 else st3)))"

text \<open>Lines 507 to 509, the handler of the loop's \<^verbatim>\<open>try\<close>.\<close>

definition handler :: "string \<Rightarrow> state \<Rightarrow> state" where
  "handler e st =
     (let st1 = emit_progress (''error: '' @ e) st
      in st1\<lparr>self := (self st1)\<lparr>stop_flag := True\<rparr>\<rparr>)"

text \<open>
  Lines 486 to 509. The list of ticks is the schedule of the session; when it is used up
  and the loop has not been left, the loop is still going (\<open>Still_looping\<close>).
\<close>

fun capture_loop :: "real \<Rightarrow> tick list \<Rightarrow> state \<Rightarrow> loop_result" where
  "capture_loop frame_interval [] st = Still_looping st"
| "capture_loop frame_interval (k # ks) st =
     (let st1 = control (before_stop_check k) st in
      if stop_flag (self st1) then Left_loop st1
      else
        let st2 = control (before_pause_check k) st1 in
        if pause_flag (self st2) then capture_loop frame_interval ks (sleep 0.05 st2)
        else
          (case iteration frame_interval k st2 of
             Inl (e, st3) \<Rightarrow> Left_loop (handler e st3)
           | Inr st3 \<Rightarrow> capture_loop frame_interval ks st3))"

subsection \<open>Assembly, upload, cleanup\<close>

text \<open>Line 521.\<close>

definition assemble :: "env \<Rightarrow> string \<Rightarrow> state \<Rightarrow> string + state" where
  "assemble e out_gif st =
     (case imread_all (fs st) (frame_paths st) of
        Inl err \<Rightarrow> Inl err
      | Inr imgs \<Rightarrow>
          (case mimsave e of
             Some err \<Rightarrow> Inl err
           | None \<Rightarrow> Inr (st\<lparr>fs := (fs st)(out_gif \<mapsto> Gif imgs (fps (self st)))\<rparr>)))"

text \<open>
  Lines 531 to 541: the body of the upload's \<^verbatim>\<open>try\<close> (\<open>attempt\<close>, \<open>Inl\<close> when it raises) and
  the value of \<^verbatim>\<open>url\<close> after the \<^verbatim>\<open>try\<close> statement (\<open>upload\<close>).
\<close>

definition attempt :: "env \<Rightarrow> string \<Rightarrow> state \<Rightarrow> string + json" where
  "attempt e out_gif st =
     (case fs st out_gif of
        None \<Rightarrow> Inl ''FileNotFoundError''
      | Some _ \<Rightarrow>
          (case post e of
             Inl err \<Rightarrow> Inl err
           | Inr r \<Rightarrow>
               if status_code r = 200 then
                 (case body r of
                    None \<Rightarrow> Inl ''JSONDecodeError''
                  | Some j \<Rightarrow>
                      (case json_get j ''url'' (JStr '''') of
                         Inl err \<Rightarrow> Inl err
                       | Inr v \<Rightarrow> Inr (if truthy v then v else JStr '''')))
               else Inr (JStr '''')))"

definition upload :: "env \<Rightarrow> string \<Rightarrow> state \<Rightarrow> json" where
  "upload e out_gif st = (case attempt e out_gif st of Inl err \<Rightarrow> JStr '''' | Inr v \<Rightarrow> v)"

text \<open>Lines 546 to 550.\<close>

definition cleanup :: "string list \<Rightarrow> filesystem \<Rightarrow> filesystem" where
  "cleanup ps f = fold (\<lambda>p g. case os_remove g p of Inl err \<Rightarrow> g | Inr g' \<Rightarrow> g') ps f"

text \<open>
  Line 553: \<^verbatim>\<open>finished_signal\<close> is a \<^verbatim>\<open>pyqtSignal(str)\<close>; emitting a value that is not a
  string raises a \<^verbatim>\<open>TypeError\<close> that nothing catches.
\<close>

definition emit_final :: "json \<Rightarrow> state \<Rightarrow> run_result" where
  "emit_final v st =
     (case v of JStr s \<Rightarrow> Returned (emit_finished s st) | _ \<Rightarrow> Uncaught ''TypeError'' st)"

text \<open>
  Lines 511 to 553, what \<^verbatim>\<open>run\<close> does once the loop is left. \<^verbatim>\<open>requests.post\<close> is called
  (and logged as \<open>Post\<close>) only when the artifact could be opened.
\<close>

definition finish :: "env \<Rightarrow> state \<Rightarrow> run_result" where
  "finish e st =
     (if length (frame_paths st) = 0 then
        (let st1 = emit_progress ''no_frames'' st;
             st2 = st1\<lparr>fs := rmtree (tmpdir (self st1)) (fs st1)\<rparr>
         in Returned (emit_finished '''' st2))
      else
        (let out_gif = recording_path (tmpdir (self st)) (gif_time e);
             st1 = emit_progress ''assembling'' st
         in case assemble e out_gif st1 of
              Inl err \<Rightarrow> Returned (emit_finished '''' (emit_progress (''error: '' @ err) st1))
            | Inr st2 \<Rightarrow>
                (let (url, st3) =
                       (case server_url (self st2) of
                          None \<Rightarrow> (JStr out_gif, st2)
                        | Some u \<Rightarrow>
                            if u = [] then (JStr out_gif, st2)
                            else
                              (let st2' = emit_progress ''uploading'' st2;
                                   st2'' = (if fs st2' out_gif = None then st2'
                                            else st2'\<lparr>trace := trace st2' @
                                              [Post (rstrip_slash u @ ''/upload'') out_gif]\<rparr>)
                               in (upload e out_gif st2'', st2'')));
                     st4 = st3\<lparr>fs := cleanup (frame_paths st3) (fs st3)\<rparr>
                 in emit_final (if truthy url then url else JStr out_gif) st4)))"

text \<open>Lines 481 to 509: the locals, the \<^verbatim>\<open>recording\<close> signal and the loop.\<close>

definition capture :: "env \<Rightarrow> recorder \<Rightarrow> filesystem \<Rightarrow> loop_result" where
  "capture e r f =
     (let frame_interval = 1 / real_of_int (fps r);
          st = \<lparr>self = r, frame_num = 0, frame_paths = [], fs = f, trace = []\<rparr>;
          st1 = emit_progress ''recording'' st
      in capture_loop frame_interval (ticks e) st1)"

text \<open>
  Lines 479 to 553. \<^verbatim>\<open>mss.mss()\<close> and the division \<^verbatim>\<open>1.0 / self.fps\<close> stand outside every
  \<^verbatim>\<open>try\<close>: when one of them raises, \<^verbatim>\<open>run\<close> ends with that exception. \<open>Recording\<close>: the
  schedule is used up and the loop is still going.
\<close>

definition run :: "env \<Rightarrow> recorder \<Rightarrow> filesystem \<Rightarrow> run_result" where
  "run e r f =
     (let st = \<lparr>self = r, frame_num = 0, frame_paths = [], fs = f, trace = []\<rparr> in
      case mss_init e of
        Some err \<Rightarrow> Uncaught err st
      | None \<Rightarrow>
          if fps r = 0 then Uncaught ''ZeroDivisionError'' st
          else
            (case capture e r f of
               Still_looping st2 \<Rightarrow> Recording st2
             | Left_loop st2 \<Rightarrow> finish e st2))"

subsection \<open>Observations\<close>

text \<open>The state a loop or a run has reached, and whether \<^verbatim>\<open>run\<close> has returned.\<close>

fun state_of :: "loop_result \<Rightarrow> state" where
  "state_of (Still_looping st) = st"
| "state_of (Left_loop st) = st"

fun final :: "run_result \<Rightarrow> state" where
  "final (Uncaught err st) = st"
| "final (Recording st) = st"
| "final (Returned st) = st"

fun returned :: "run_result \<Rightarrow> bool" where
  "returned (Returned st) = True"
| "returned _ = False"

text \<open>The frames written to the spool, in the order of the writes.\<close>

fun saved :: "effect \<Rightarrow> (string \<times> raster) list" where
  "saved (Save p img) = [(p, img)]"
| "saved _ = []"

definition saves :: "effect list \<Rightarrow> (string \<times> raster) list" where
  "saves tr = concat (map saved tr)"

text \<open>The texts sent through \<^verbatim>\<open>progress_signal\<close>, the time slept, the grabs.\<close>

fun progress_text :: "effect \<Rightarrow> string list" where
  "progress_text (Progress s) = [s]"
| "progress_text _ = []"

definition progress :: "effect list \<Rightarrow> string list" where
  "progress tr = concat (map progress_text tr)"

fun sleep_time :: "effect \<Rightarrow> real" where
  "sleep_time (Sleep d) = d"
| "sleep_time _ = 0"

definition slept :: "effect list \<Rightarrow> real" where
  "slept tr = sum_list (map sleep_time tr)"


text \<open>
  The invariant of the loop: the paths collected so far are those of the sequence numbers
  \<open>0\<close> to \<open>frame_num - 1\<close> in this order, they are the paths of the writes in the order of
  the writes, and reading them back gives the rasters written.
\<close>

definition spooled :: "state \<Rightarrow> bool" where
  "spooled st \<longleftrightarrow>
     frame_paths st = map (frame_path_of (tmpdir (self st))) [0..<frame_num st] \<and>
     map fst (saves (trace st)) = frame_paths st \<and>
     imread_all (fs st) (frame_paths st) = Inr (map snd (saves (trace st)))"

definition same_config :: "recorder \<Rightarrow> recorder \<Rightarrow> bool" where
  "same_config r r' \<longleftrightarrow>
     bbox r' = bbox r \<and> fps r' = fps r \<and> server_url r' = server_url r \<and> tmpdir r' = tmpdir r"


subsection \<open>Example sessions\<close>

definition ex_recorder :: recorder where
  "ex_recorder =
     fst (RecorderThread (0, 0, 640, 480) 10 (Some ''http://store'') ''/t'' Map.empty)"

definition ex_fs :: filesystem where
  "ex_fs = snd (RecorderThread (0, 0, 640, 480) 10 (Some ''http://store'') ''/t'' Map.empty)"

definition ex_tick :: "raster \<Rightarrow> tick" where
  "ex_tick img =
     \<lparr>before_stop_check = [], before_pause_check = [], t0 = 100, t1 = 100 + 1 / 50,
      grab = Inr img, save = Save_ok\<rparr>"

definition stop_tick :: tick where
  "stop_tick = (ex_tick [])\<lparr>before_stop_check := [Stop]\<rparr>"

definition ex_state :: state where
  "ex_state = \<lparr>self = ex_recorder, frame_num = 0, frame_paths = [], fs = ex_fs, trace = []\<rparr>"

definition ex_env :: "tick list \<Rightarrow> string + response \<Rightarrow> env" where
  "ex_env ks p = \<lparr>mss_init = None, ticks = ks, gif_time = 5, mimsave = None, post = p\<rparr>"

text \<open>
  The state in which the loop is left when one frame \<open>a\<close>, or two frames \<open>a\<close> and \<open>b\<close>,
  have been captured at 10 frames per second, each in 0.02 seconds, and \<^verbatim>\<open>stop()\<close> is called
  during the sleep that follows.
\<close>

definition one_frame :: state where
  "one_frame =
     \<lparr>self = stop ex_recorder, frame_num = 1,
      frame_paths = [''/t/frame_000000.png''],
      fs = ex_fs(''/t/frame_000000.png'' \<mapsto> Png ''a''),
      trace = [Progress ''recording'',
               Grab (0, 0, 640, 480), Save ''/t/frame_000000.png'' ''a'', Sleep (2 / 25)]\<rparr>"

definition two_frames :: state where
  "two_frames =
     \<lparr>self = stop ex_recorder, frame_num = 2,
      frame_paths = [''/t/frame_000000.png'', ''/t/frame_000001.png''],
      fs = ex_fs(''/t/frame_000000.png'' \<mapsto> Png ''a'', ''/t/frame_000001.png'' \<mapsto> Png ''b''),
      trace = [Progress ''recording'',
               Grab (0, 0, 640, 480), Save ''/t/frame_000000.png'' ''a'', Sleep (2 / 25),
               Grab (0, 0, 640, 480), Save ''/t/frame_000001.png'' ''b'', Sleep (2 / 25)]\<rparr>"

text \<open>
  A tick whose grab raises, and the state in which the loop is left when that happens after
  the frame \<open>a\<close> has been captured.
\<close>

definition fail_tick :: tick where
  "fail_tick = (ex_tick [])\<lparr>grab := Inl ''boom''\<rparr>"

definition after_failure :: state where
  "after_failure =
     one_frame\<lparr>trace := trace one_frame @ [Grab (0, 0, 640, 480), Progress ''error: boom'']\<rparr>"

section \<open>Properties\<close>

text \<open>The equations that evaluate the model on a concrete session.\<close>

lemmas ex_defs = ex_recorder_def ex_fs_def ex_tick_def stop_tick_def ex_state_def ex_env_def
  one_frame_def two_frames_def fail_tick_def after_failure_def RecorderThread_def

lemmas run_defs = run_def capture_def finish_def assemble_def attempt_def upload_def
  cleanup_def emit_final_def iteration_def handler_def control_def emit_progress_def
  emit_finished_def sleep_def pause_def resume_def stop_def os_remove_def imread_def
  rmtree_def under_def

lemmas fmt_defs = frame_path_of_def recording_path_def path_join_def format_06d_def
  str_nat.simps digit_def str_int_def py_int_def rstrip_slash_def eval_nat_numeral

subsection \<open>The control flags\<close>

lemma stop_twice: "stop (stop r) = stop r"
  by (simp add: stop_def)

lemma stop_noop: "stop_flag r \<Longrightarrow> stop r = r"
  by (simp add: stop_def)

lemma not_active_iff:
  "session_state r \<noteq> Running \<and> session_state r \<noteq> Paused \<longleftrightarrow> stop_flag r"
  by (simp add: session_state_def)

text \<open>The loop is left only with the stop flag set: it has read it, or the handler sets it.\<close>

lemma left_loop_stop_flag:
  "capture_loop iv ks st = Left_loop st' \<Longrightarrow> stop_flag (self st')"
proof (induction ks arbitrary: st)
  case Nil
  then show ?case by simp
next
  case (Cons k ks)
  then show ?case
    by (auto simp: Let_def handler_def emit_progress_def
        split: if_splits sum.splits prod.splits)
qed

text \<open>
  C7: \<^verbatim>\<open>stop()\<close> is idempotent. Calling it twice leaves the recorder as calling it once
  does; in a session that is neither \<open>Running\<close> nor \<open>Paused\<close> it changes nothing, and this
  includes every recorder whose capture loop has been left.
\<close>

theorem stop_idempotent:
  "stop (stop r) = stop r \<and>
   (session_state r \<noteq> Running \<and> session_state r \<noteq> Paused \<longrightarrow> stop r = r) \<and>
   (capture_loop iv ks st = Left_loop st' \<longrightarrow> stop (self st') = self st')"
proof (intro conjI impI)
  show "stop (stop r) = stop r" by (rule stop_twice)
next
  assume "session_state r \<noteq> Running \<and> session_state r \<noteq> Paused"
  then have "stop_flag r" by (simp only: not_active_iff)
  then show "stop r = r" by (rule stop_noop)
next
  assume "capture_loop iv ks st = Left_loop st'"
  then have "stop_flag (self st')" by (rule left_loop_stop_flag)
  then show "stop (self st') = self st'" by (rule stop_noop)
qed

theorem stop_idempotent_witness:
  "session_state (stop ex_recorder) \<noteq> Running \<and>
   session_state (stop ex_recorder) \<noteq> Paused \<and>
   stop (stop ex_recorder) = stop ex_recorder \<and>
   capture_loop (1 / 10) [stop_tick] ex_state = Left_loop (ex_state\<lparr>self := stop ex_recorder\<rparr>) \<and>
   stop (self (ex_state\<lparr>self := stop ex_recorder\<rparr>)) = self (ex_state\<lparr>self := stop ex_recorder\<rparr>)"
proof -
  have a: "session_state (stop ex_recorder) \<noteq> Running \<and>
           session_state (stop ex_recorder) \<noteq> Paused"
    by (simp add: session_state_def stop_def)
  have b: "capture_loop (1 / 10) [stop_tick] ex_state =
           Left_loop (ex_state\<lparr>self := stop ex_recorder\<rparr>)"
    by (simp add: ex_defs run_defs Let_def)
  show ?thesis
    using a b stop_idempotent [of "stop ex_recorder" "1 / 10" "[stop_tick]" ex_state
        "ex_state\<lparr>self := stop ex_recorder\<rparr>"]
    by simp
qed

subsection \<open>Formatting is injective\<close>

lemma digit_inj: "d < 10 \<Longrightarrow> d' < 10 \<Longrightarrow> digit d = digit d' \<Longrightarrow> d = d'"
proof -
  assume a: "d < 10" "d' < 10" "digit d = digit d'"
  have "distinct ''0123456789''" by simp
  moreover have "d < length ''0123456789''" "d' < length ''0123456789''" using a by simp_all
  ultimately show ?thesis using a(3) unfolding digit_def by (simp only: nth_eq_iff_index_eq)
qed

lemma digit_zero: "d < 10 \<Longrightarrow> digit d = CHR ''0'' \<Longrightarrow> d = 0"
proof -
  assume a: "d < 10" "digit d = CHR ''0''"
  have "digit 0 = CHR ''0''" by (simp add: digit_def)
  with a show ?thesis using digit_inj [of d 0] by simp
qed

lemma str_nat_nonempty: "str_nat n \<noteq> []"
  by (subst str_nat.simps) simp

lemma str_nat_inj: "str_nat m = str_nat n \<Longrightarrow> m = n"
proof (induction m arbitrary: n rule: str_nat.induct)
  case (1 m)
  show ?case
  proof (cases "m < 10")
    case True
    then have m: "str_nat m = [digit m]" by (subst str_nat.simps) simp
    show ?thesis
    proof (cases "n < 10")
      case True
      then have "str_nat n = [digit n]" by (subst str_nat.simps) simp
      with m "1.prems" have "digit m = digit n" by simp
      with \<open>m < 10\<close> \<open>n < 10\<close> show ?thesis by (rule digit_inj)
    next
      case False
      then have "str_nat n = str_nat (n div 10) @ [digit (n mod 10)]"
        by (subst str_nat.simps) simp
      with m "1.prems" have "str_nat (n div 10) = []" by simp
      then show ?thesis by (simp add: str_nat_nonempty)
    qed
  next
    case False
    then have m: "str_nat m = str_nat (m div 10) @ [digit (m mod 10)]"
      by (subst str_nat.simps) simp
    show ?thesis
    proof (cases "n < 10")
      case True
      then have "str_nat n = [digit n]" by (subst str_nat.simps) simp
      with m "1.prems" have "str_nat (m div 10) = []" by simp
      then show ?thesis by (simp add: str_nat_nonempty)
    next
      case n: False
      then have "str_nat n = str_nat (n div 10) @ [digit (n mod 10)]"
        by (subst str_nat.simps) simp
      with m "1.prems" have eq: "str_nat (m div 10) = str_nat (n div 10)"
        and dg: "digit (m mod 10) = digit (n mod 10)" by simp_all
      from "1.IH" [OF False eq] have "m div 10 = n div 10" .
      moreover have "m mod 10 = n mod 10" using dg by (intro digit_inj) simp_all
      ultimately show ?thesis by (metis div_mult_mod_eq)
    qed
  qed
qed

lemma str_nat_leading: "0 < n \<Longrightarrow> \<exists>c cs. str_nat n = c # cs \<and> c \<noteq> CHR ''0''"
proof (induction n rule: str_nat.induct)
  case (1 n)
  show ?case
  proof (cases "n < 10")
    case True
    then have "str_nat n = [digit n]" by (subst str_nat.simps) simp
    moreover have "digit n \<noteq> CHR ''0''" using True "1.prems" digit_zero [of n] by auto
    ultimately show ?thesis by simp
  next
    case False
    then have n: "str_nat n = str_nat (n div 10) @ [digit (n mod 10)]"
      by (subst str_nat.simps) simp
    from False have "0 < n div 10" by simp
    from "1.IH" [OF False this] obtain c cs where "str_nat (n div 10) = c # cs" "c \<noteq> CHR ''0''"
      by blast
    with n show ?thesis by simp
  qed
qed

lemma dropWhile_replicate_same:
  "dropWhile (\<lambda>c. c = x) (replicate k x @ ys) = dropWhile (\<lambda>c. c = x) ys"
  by (induction k) simp_all

lemma strip_format_06d:
  "dropWhile (\<lambda>c. c = CHR ''0'') (format_06d n) = (if n = 0 then [] else str_nat n)"
proof (cases "n = 0")
  case True
  have "str_nat 0 = ''0''" by (simp add: str_nat.simps digit_def)
  with True show ?thesis by (simp add: format_06d_def dropWhile_replicate_same)
next
  case False
  then obtain c cs where "str_nat n = c # cs" "c \<noteq> CHR ''0''"
    using str_nat_leading [of n] by auto
  with False show ?thesis by (simp add: format_06d_def dropWhile_replicate_same)
qed

lemma format_06d_inj: "format_06d m = format_06d n \<Longrightarrow> m = n"
proof -
  assume "format_06d m = format_06d n"
  then have "dropWhile (\<lambda>c. c = CHR ''0'') (format_06d m) =
             dropWhile (\<lambda>c. c = CHR ''0'') (format_06d n)" by simp
  then have eq: "(if m = 0 then [] else str_nat m) = (if n = 0 then [] else str_nat n)"
    by (simp only: strip_format_06d)
  have ne: "str_nat k \<noteq> []" "[] \<noteq> str_nat k" for k
    using str_nat_nonempty [of k] by auto
  show ?thesis
  proof (cases "m = 0")
    case True
    with eq show ?thesis by (auto simp: ne split: if_splits)
  next
    case False
    with eq show ?thesis
      by (cases "n = 0") (auto simp: ne dest: str_nat_inj)
  qed
qed

lemma frame_path_of_eq [simp]: "frame_path_of d m = frame_path_of d n \<longleftrightarrow> m = n"
  by (auto simp: frame_path_of_def path_join_def dest: format_06d_inj)

lemma recording_path_neq [simp]: "recording_path d t \<noteq> frame_path_of d n"
  by (simp add: frame_path_of_def recording_path_def path_join_def)

lemma frame_path_under: "under d (frame_path_of d n)"
  by (simp add: under_def frame_path_of_def path_join_def)

lemma recording_path_under: "under d (recording_path d t)"
  by (simp add: under_def recording_path_def path_join_def)

subsection \<open>Traces\<close>

lemma saves_append [simp]: "saves (a @ b) = saves a @ saves b"
  by (simp add: saves_def)

lemma saves_simps [simp]:
  "saves [] = []"
  "saves (Save p img # tr) = (p, img) # saves tr"
  "saves (Progress s # tr) = saves tr"
  "saves (Finished s # tr) = saves tr"
  "saves (Sleep d # tr) = saves tr"
  "saves (Grab b # tr) = saves tr"
  "saves (Post u q # tr) = saves tr"
  by (simp_all add: saves_def)

lemma progress_append [simp]: "progress (a @ b) = progress a @ progress b"
  by (simp add: progress_def)

lemma progress_simps [simp]:
  "progress [] = []"
  "progress (Progress s # tr) = s # progress tr"
  "progress (Save p img # tr) = progress tr"
  "progress (Finished s # tr) = progress tr"
  "progress (Sleep d # tr) = progress tr"
  "progress (Grab b # tr) = progress tr"
  "progress (Post u q # tr) = progress tr"
  by (simp_all add: progress_def)

lemma slept_append [simp]: "slept (a @ b) = slept a + slept b"
  by (simp add: slept_def)

lemma slept_simps [simp]:
  "slept [] = 0"
  "slept (Sleep d # tr) = d + slept tr"
  "slept (Progress s # tr) = slept tr"
  "slept (Save p img # tr) = slept tr"
  "slept (Finished s # tr) = slept tr"
  "slept (Grab b # tr) = slept tr"
  "slept (Post u q # tr) = slept tr"
  by (simp_all add: slept_def)

subsection \<open>The calls of the controlling thread touch the flags only\<close>

lemma call_fields [simp]:
  "bbox (call c r) = bbox r" "fps (call c r) = fps r"
  "server_url (call c r) = server_url r" "tmpdir (call c r) = tmpdir r"
  by (cases c; simp add: pause_def resume_def stop_def)+

lemma fold_call_fields [simp]:
  "bbox (fold call cs r) = bbox r" "fps (fold call cs r) = fps r"
  "server_url (fold call cs r) = server_url r" "tmpdir (fold call cs r) = tmpdir r"
  by (induction cs arbitrary: r; simp)+

lemma control_fields [simp]:
  "frame_num (control cs st) = frame_num st" "frame_paths (control cs st) = frame_paths st"
  "fs (control cs st) = fs st" "trace (control cs st) = trace st"
  "tmpdir (self (control cs st)) = tmpdir (self st)"
  "fps (self (control cs st)) = fps (self st)"
  "bbox (self (control cs st)) = bbox (self st)"
  "server_url (self (control cs st)) = server_url (self st)"
  by (simp_all add: control_def)

subsection \<open>Reading the spool back\<close>

lemma imread_all_append:
  "imread_all f (ps @ [p]) =
     (case imread_all f ps of
        Inl e \<Rightarrow> Inl e
      | Inr imgs \<Rightarrow> (case imread f p of Inl e \<Rightarrow> Inl e | Inr img \<Rightarrow> Inr (imgs @ [img])))"
  by (induction ps) (auto split: sum.splits)

lemma imread_all_upd: "p \<notin> set ps \<Longrightarrow> imread_all (f(p := x)) ps = imread_all f ps"
  by (induction ps) (auto simp: imread_def split: sum.splits)

lemma imread_all_png:
  "imread_all f ps = Inr imgs \<Longrightarrow> p \<in> set ps \<Longrightarrow> \<exists>img. f p = Some (Png img)"
  by (induction ps arbitrary: imgs)
     (auto simp: imread_def split: sum.splits option.splits fsnode.splits)

lemma imread_all_length: "imread_all f ps = Inr imgs \<Longrightarrow> length imgs = length ps"
  by (induction ps arbitrary: imgs) (auto split: sum.splits)

subsection \<open>The invariant of the loop\<close>

lemma fresh_frame_path: "frame_path_of d n \<notin> set (map (frame_path_of d) [0..<n])"
  by auto

lemma spooled_control [simp]: "spooled (control cs st) = spooled st"
  by (simp add: spooled_def)

lemma spooled_sleep [simp]: "spooled (sleep d st) = spooled st"
  by (simp add: spooled_def sleep_def)

lemma spooled_handler [simp]: "spooled (handler e st) = spooled st"
  by (simp add: spooled_def handler_def emit_progress_def Let_def)

lemma spooled_emit_progress [simp]: "spooled (emit_progress s st) = spooled st"
  by (simp add: spooled_def emit_progress_def)

lemma spooled_iteration_ok:
  assumes "spooled st" "iteration iv k st = Inr st'"
  shows "spooled st'"
proof -
  obtain img where g: "grab k = Inr img" and s: "save k = Save_ok"
    using assms(2) by (auto simp: iteration_def Let_def split: sum.splits save_outcome.splits)
  let ?p = "frame_path_of (tmpdir (self st)) (frame_num st)"
  let ?st3 = "st\<lparr>fs := (fs st)(?p \<mapsto> Png img),
                 trace := trace st @ [Grab (bbox (self st)), Save ?p img],
                 frame_paths := frame_paths st @ [?p],
                 frame_num := frame_num st + 1\<rparr>"
  have st': "st' = ?st3 \<or> (\<exists>d. st' = sleep d ?st3)"
    using assms(2) g s by (auto simp: iteration_def Let_def split: if_splits)
  have fresh: "?p \<notin> set (frame_paths st)"
    using assms(1) fresh_frame_path [of "tmpdir (self st)" "frame_num st"]
    by (simp add: spooled_def)
  have a: "frame_paths st = map (frame_path_of (tmpdir (self st))) [0..<frame_num st]"
    and b: "map fst (saves (trace st)) = frame_paths st"
    and c: "imread_all (fs st) (frame_paths st) = Inr (map snd (saves (trace st)))"
    using assms(1) unfolding spooled_def by blast+
  have "imread_all ((fs st)(?p \<mapsto> Png img)) (frame_paths st @ [?p]) =
        Inr (map snd (saves (trace st)) @ [img])"
    using fresh c by (simp add: imread_all_append imread_all_upd imread_def)
  then have "spooled ?st3"
    unfolding spooled_def using a b by simp
  with st' show ?thesis by auto
qed

lemma spooled_iteration_fail:
  assumes "spooled st" "iteration iv k st = Inl (e, st')"
  shows "spooled st' \<and> frame_paths st' = frame_paths st \<and> frame_num st' = frame_num st \<and>
         self st' = self st \<and> trace st' = trace st @ [Grab (bbox (self st))]"
proof -
  let ?p = "frame_path_of (tmpdir (self st)) (frame_num st)"
  have fresh: "?p \<notin> set (frame_paths st)"
    using assms(1) fresh_frame_path [of "tmpdir (self st)" "frame_num st"]
    by (simp add: spooled_def)
  show ?thesis
    using assms fresh
    by (auto simp: iteration_def Let_def spooled_def imread_all_upd
        split: sum.splits save_outcome.splits option.splits)
qed

lemma spooled_capture_loop: "spooled st \<Longrightarrow> spooled (state_of (capture_loop iv ks st))"
proof (induction ks arbitrary: st)
  case Nil
  then show ?case by simp
next
  case (Cons k ks)
  let ?st2 = "control (before_pause_check k) (control (before_stop_check k) st)"
  have sp2: "spooled ?st2" using Cons.prems by simp
  show ?case
  proof (cases "iteration iv k ?st2")
    case (Inl a)
    then obtain e st3 where "iteration iv k ?st2 = Inl (e, st3)" by (cases a) auto
    with sp2 spooled_iteration_fail [of ?st2 iv k e st3] Cons show ?thesis
      by (simp add: Let_def)
  next
    case (Inr st3)
    with sp2 have "spooled st3" by (rule spooled_iteration_ok)
    with Inr Cons show ?thesis by (simp add: Let_def)
  qed
qed

lemma spooled_capture: "spooled (state_of (capture e r f))"
proof -
  have "spooled (emit_progress ''recording''
          \<lparr>self = r, frame_num = 0, frame_paths = [], fs = f, trace = []\<rparr>)"
    by (simp add: spooled_def emit_progress_def)
  then show ?thesis unfolding capture_def Let_def by (rule spooled_capture_loop)
qed

subsection \<open>Cleanup\<close>

lemma cleanup_apply:
  "cleanup ps f q = (if q \<in> set ps \<and> f q \<noteq> Some Dir then None else f q)"
proof (induction ps arbitrary: f)
  case Nil
  then show ?case by (simp add: cleanup_def)
next
  case (Cons p ps)
  have step: "cleanup (p # ps) f =
      cleanup ps (case os_remove f p of Inl err \<Rightarrow> f | Inr g \<Rightarrow> g)"
    by (simp add: cleanup_def)
  show ?case
    unfolding step Cons.IH
    by (auto simp: os_remove_def split: option.splits fsnode.splits)
qed

subsection \<open>What \<^verbatim>\<open>run\<close> does after the loop\<close>

lemma iteration_self:
  "iteration iv k st = Inr st' \<Longrightarrow> self st' = self st"
  "iteration iv k st = Inl (e, st') \<Longrightarrow> self st' = self st"
  by (auto simp: iteration_def Let_def sleep_def
      split: sum.splits save_outcome.splits option.splits if_splits)

lemma handler_config [simp]:
  "tmpdir (self (handler e st)) = tmpdir (self st)"
  "fps (self (handler e st)) = fps (self st)"
  "bbox (self (handler e st)) = bbox (self st)"
  "server_url (self (handler e st)) = server_url (self st)"
  by (simp_all add: handler_def emit_progress_def Let_def)

lemma capture_loop_config:
  "same_config (self st) (self (state_of (capture_loop iv ks st)))"
proof (induction ks arbitrary: st)
  case Nil
  then show ?case by (simp add: same_config_def)
next
  case (Cons k ks)
  let ?st2 = "control (before_pause_check k) (control (before_stop_check k) st)"
  show ?case
  proof (cases "iteration iv k ?st2")
    case (Inl a)
    then obtain e st3 where it: "iteration iv k ?st2 = Inl (e, st3)" by (cases a) auto
    then have "self st3 = self ?st2" by (rule iteration_self)
    with it Cons.IH [of "sleep 0.05 ?st2"] show ?thesis
      by (simp add: Let_def same_config_def sleep_def)
  next
    case (Inr st3)
    then have "self st3 = self ?st2" by (rule iteration_self)
    with Inr Cons.IH [of "sleep 0.05 ?st2"] Cons.IH [of st3] show ?thesis
      by (simp add: Let_def same_config_def sleep_def)
  qed
qed

lemma capture_config: "same_config r (self (state_of (capture e r f)))"
  using capture_loop_config
    [of "emit_progress ''recording''
          \<lparr>self = r, frame_num = 0, frame_paths = [], fs = f, trace = []\<rparr>"
        "1 / real_of_int (fps r)" "ticks e"]
  by (simp add: capture_def Let_def emit_progress_def)

lemma recording_path_fresh:
  "spooled st \<Longrightarrow> recording_path (tmpdir (self st)) t \<notin> set (frame_paths st)"
  by (auto simp: spooled_def)

lemma upload_delivered:
  assumes "fs st out \<noteq> None" "post e = Inr resp" "status_code resp = 200"
    "body resp = Some j" "json_get j ''url'' (JStr []) = Inr (JStr s)" "s \<noteq> []"
  shows "upload e out st = JStr s"
  using assms by (auto simp: upload_def attempt_def)

lemma upload_failed:
  assumes "post e = Inl err \<or> (\<exists>resp. post e = Inr resp \<and> status_code resp \<noteq> 200)"
  shows "upload e out st = JStr []"
  using assms by (auto simp: upload_def attempt_def split: option.splits)


lemma finish_upload:
  assumes "spooled st" "frame_paths st \<noteq> []" "mimsave e = None"
    "server_url (self st) = Some u" "u \<noteq> []"
    "upload e (recording_path (tmpdir (self st)) (gif_time e))
       (st\<lparr>fs := (fs st)(recording_path (tmpdir (self st)) (gif_time e) \<mapsto>
                   Gif (map snd (saves (trace st))) (fps (self st))),
           trace := trace st @
              [Progress ''assembling'', Progress ''uploading'',
               Post (rstrip_slash u @ ''/upload'')
                 (recording_path (tmpdir (self st)) (gif_time e))]\<rparr>) = JStr s"
  shows "finish e st =
     Returned (st\<lparr>trace := trace st @
                   [Progress ''assembling'', Progress ''uploading'',
                    Post (rstrip_slash u @ ''/upload'')
                      (recording_path (tmpdir (self st)) (gif_time e)),
                    Finished (if s \<noteq> [] then s
                              else recording_path (tmpdir (self st)) (gif_time e))],
                 fs := cleanup (frame_paths st)
                   ((fs st)(recording_path (tmpdir (self st)) (gif_time e) \<mapsto>
                      Gif (map snd (saves (trace st))) (fps (self st))))\<rparr>)"
proof -
  have rd: "imread_all (fs st) (frame_paths st) = Inr (map snd (saves (trace st)))"
    using assms(1) unfolding spooled_def by blast
  show ?thesis
    using assms(2-6) rd
    by (simp add: finish_def assemble_def emit_progress_def emit_finished_def emit_final_def
        Let_def)
qed

subsection \<open>A session without frames\<close>

lemma capture_tmpdir:
  "capture e r f = Left_loop st \<Longrightarrow>
     tmpdir (self st) = tmpdir r \<and> fps (self st) = fps r \<and> server_url (self st) = server_url r"
  using capture_config [of r e f] by (simp add: same_config_def)

lemma capture_spooled: "capture e r f = Left_loop st \<Longrightarrow> spooled st"
  using spooled_capture [of e r f] by simp

lemma run_finish:
  "mss_init e = None \<Longrightarrow> fps r \<noteq> 0 \<Longrightarrow> capture e r f = Left_loop st \<Longrightarrow>
     run e r f = finish e st"
  by (simp add: run_def Let_def)

lemma rmtree_under: "under d p \<Longrightarrow> rmtree d f p = None"
  by (simp add: rmtree_def)

lemma rmtree_outside: "\<not> under d p \<Longrightarrow> rmtree d f p = f p"
  by (simp add: rmtree_def)

text \<open>
  C5: a session that leaves the loop with no frame captured sends \<^verbatim>\<open>no_frames\<close>, removes
  the spool directory with everything in it, reports the empty result and writes no artifact:
  \<^verbatim>\<open>run\<close> returns, the last two effects are the \<^verbatim>\<open>no_frames\<close> signal and the empty
  \<^verbatim>\<open>finished\<close> signal, no path in or under the directory is left (the path of the artifact
  among them), and the rest of the file system is untouched.
\<close>

theorem no_frames_session:
  assumes "mss_init e = None" and "fps r \<noteq> 0"
    and "capture e r f = Left_loop st" and "frame_paths st = []"
  shows "returned (run e r f) \<and>
         trace (final (run e r f)) = trace st @ [Progress ''no_frames'', Finished ''''] \<and>
         (\<forall>p. under (tmpdir r) p \<longrightarrow> fs (final (run e r f)) p = None) \<and>
         fs (final (run e r f)) (recording_path (tmpdir r) (gif_time e)) = None \<and>
         (\<forall>p. \<not> under (tmpdir r) p \<longrightarrow> fs (final (run e r f)) p = fs st p)"
proof -
  have d: "tmpdir (self st) = tmpdir r" using assms(3) capture_tmpdir by blast
  have "run e r f = finish e st" using assms(1-3) by (rule run_finish)
  also have "finish e st =
      Returned (st\<lparr>fs := rmtree (tmpdir r) (fs st),
                  trace := trace st @ [Progress ''no_frames'', Finished '''']\<rparr>)"
    using assms(4) d by (simp add: finish_def Let_def emit_progress_def emit_finished_def)
  finally show ?thesis
    by (simp add: rmtree_under rmtree_outside recording_path_under)
qed

theorem no_frames_session_witness:
  "capture (ex_env [stop_tick] (Inl ''timeout'')) ex_recorder ex_fs =
     Left_loop (ex_state\<lparr>self := stop ex_recorder, trace := [Progress ''recording'']\<rparr>) \<and>
   returned (run (ex_env [stop_tick] (Inl ''timeout'')) ex_recorder ex_fs) \<and>
   trace (final (run (ex_env [stop_tick] (Inl ''timeout'')) ex_recorder ex_fs)) =
     [Progress ''recording'', Progress ''no_frames'', Finished ''''] \<and>
   under ''/t'' ''/t'' \<and>
   fs (final (run (ex_env [stop_tick] (Inl ''timeout'')) ex_recorder ex_fs)) ''/t'' = None"
proof -
  let ?e = "ex_env [stop_tick] (Inl ''timeout'')"
  let ?st = "ex_state\<lparr>self := stop ex_recorder, trace := [Progress ''recording'']\<rparr>"
  have c: "capture ?e ex_recorder ex_fs = Left_loop ?st"
    by (simp add: ex_defs run_defs Let_def)
  have h: "mss_init ?e = None" "fps ex_recorder \<noteq> 0" "frame_paths ?st = []"
    "tmpdir ex_recorder = ''/t''" "under ''/t'' ''/t''"
    by (simp_all add: ex_defs under_def)
  show ?thesis
    using no_frames_session [OF h(1) h(2) c h(3)] c h(4) h(5) by (simp add: ex_defs)
qed

subsection \<open>The artifact\<close>


lemma final_emit_final [simp]: "fs (final (emit_final v st)) = fs st"
  by (cases v) (simp_all add: emit_final_def emit_finished_def)


lemma artifact_kept:
  assumes "spooled st"
  shows "cleanup (frame_paths st)
       ((fs st)(recording_path (tmpdir (self st)) t \<mapsto> g)) (recording_path (tmpdir (self st)) t)
     = Some g"
  using recording_path_fresh [OF assms, of t] by (simp add: cleanup_apply)

lemma frames_removed:
  assumes "spooled st" "p \<in> set (frame_paths st)"
  shows "cleanup (frame_paths st) ((fs st)(recording_path (tmpdir (self st)) t \<mapsto> g)) p = None"
proof -
  have rd: "imread_all (fs st) (frame_paths st) = Inr (map snd (saves (trace st)))"
    using assms(1) unfolding spooled_def by blast
  from imread_all_png [OF rd assms(2)] obtain img where "fs st p = Some (Png img)" by blast
  moreover have "p \<noteq> recording_path (tmpdir (self st)) t"
    using recording_path_fresh [OF assms(1), of t] assms(2) by auto
  ultimately show ?thesis using assms(2) by (simp add: cleanup_apply)
qed


subsection \<open>The example sessions, evaluated\<close>

lemma ex_paths:
  "frame_path_of ''/t'' 0 = ''/t/frame_000000.png''"
  "frame_path_of ''/t'' (Suc 0) = ''/t/frame_000001.png''"
  "frame_path_of ''/t'' 1 = ''/t/frame_000001.png''"
  "recording_path ''/t'' 5 = ''/t/recording_5.gif''"
  by (simp_all add: fmt_defs)

lemma capture_one_frame:
  "capture (ex_env [ex_tick ''a'', stop_tick] p) ex_recorder ex_fs = Left_loop one_frame"
  by (simp add: ex_defs run_defs Let_def ex_paths)



subsection \<open>Delivery\<close>

lemma json_get_obj:
  "json_get (JObj kvs) key dflt = Inr (case map_of (rev kvs) key of None \<Rightarrow> dflt | Some v \<Rightarrow> v)"
  by (simp split: option.splits)

text \<open>The result and the files of a session with frames whose upload gives the string \<open>s\<close>.\<close>

lemma uploaded_session:
  assumes "mss_init e = None" and "fps r \<noteq> 0"
    and "capture e r f = Left_loop st" and "frame_paths st \<noteq> []" and "mimsave e = None"
    and "server_url r = Some u" and "u \<noteq> []"
    and up: "\<And>st'. fs st' (recording_path (tmpdir r) (gif_time e)) \<noteq> None \<Longrightarrow>
           upload e (recording_path (tmpdir r) (gif_time e)) st' = JStr s"
  shows "returned (run e r f) \<and>
         last (trace (final (run e r f))) =
           Finished (if s \<noteq> [] then s else recording_path (tmpdir r) (gif_time e)) \<and>
         progress (trace (final (run e r f))) =
           progress (trace st) @ [''assembling'', ''uploading''] \<and>
         (\<forall>p \<in> set (frame_paths st). fs (final (run e r f)) p = None) \<and>
         fs (final (run e r f)) (recording_path (tmpdir r) (gif_time e)) =
           Some (Gif (map snd (saves (trace st))) (fps r))"
proof -
  have sp: "spooled st" using assms(3) by (rule capture_spooled)
  have cf: "tmpdir (self st) = tmpdir r" "fps (self st) = fps r"
    "server_url (self st) = server_url r"
    using assms(3) capture_tmpdir by blast+
  let ?out = "recording_path (tmpdir (self st)) (gif_time e)"
  have run: "run e r f = finish e st" using assms(1-3) by (rule run_finish)
  have fin: "finish e st =
     Returned (st\<lparr>trace := trace st @
                   [Progress ''assembling'', Progress ''uploading'',
                    Post (rstrip_slash u @ ''/upload'') ?out,
                    Finished (if s \<noteq> [] then s else ?out)],
                 fs := cleanup (frame_paths st)
                   ((fs st)(?out \<mapsto> Gif (map snd (saves (trace st))) (fps (self st))))\<rparr>)"
  proof (rule finish_upload [OF sp assms(4,5) _ assms(7)])
    show "server_url (self st) = Some u" using cf assms(6) by simp
    show "upload e ?out
       (st\<lparr>fs := (fs st)(?out \<mapsto> Gif (map snd (saves (trace st))) (fps (self st))),
           trace := trace st @
              [Progress ''assembling'', Progress ''uploading'',
               Post (rstrip_slash u @ ''/upload'') ?out]\<rparr>) = JStr s"
      using up cf by simp
  qed
  show ?thesis
    unfolding run fin
    using artifact_kept [OF sp] frames_removed [OF sp] cf
    by simp
qed

lemma upload_no_url:
  assumes "post e = Inr resp" "status_code resp = 200" "body resp = Some (JObj kvs)"
    "map_of (rev kvs) ''url'' = None \<or> map_of (rev kvs) ''url'' = Some (JStr []) \<or>
     map_of (rev kvs) ''url'' = Some JNull"
  shows "upload e out st = JStr []"
  using assms by (auto simp: upload_def attempt_def split: option.splits)

text \<open>
  C4: when the store answers the upload with status 200 and a JSON object whose \<^verbatim>\<open>url\<close> is
  the string \<open>s\<close>, not empty, \<^verbatim>\<open>run\<close> returns with \<open>s\<close> as the result, every frame file is
  gone from the disk, and the artifact is still there.
\<close>

theorem delivered_session:
  assumes "mss_init e = None" and "fps r \<noteq> 0"
    and "capture e r f = Left_loop st" and "frame_paths st \<noteq> []" and "mimsave e = None"
    and "server_url r = Some u" and "u \<noteq> []"
    and "post e = Inr resp" and "status_code resp = 200" and "body resp = Some (JObj kvs)"
    and "map_of (rev kvs) ''url'' = Some (JStr s)" and "s \<noteq> []"
  shows "returned (run e r f) \<and>
         last (trace (final (run e r f))) = Finished s \<and>
         (\<forall>p \<in> set (frame_paths st). fs (final (run e r f)) p = None) \<and>
         fs (final (run e r f)) (recording_path (tmpdir r) (gif_time e)) =
           Some (Gif (map snd (saves (trace st))) (fps r))"
proof -
  have "upload e (recording_path (tmpdir r) (gif_time e)) st' = JStr s"
    if "fs st' (recording_path (tmpdir r) (gif_time e)) \<noteq> None" for st'
  proof (rule upload_delivered [OF that assms(8,9)])
    show "body resp = Some (JObj kvs)" by (rule assms(10))
    show "json_get (JObj kvs) ''url'' (JStr []) = Inr (JStr s)"
      by (simp only: json_get_obj assms(11) option.case)
    show "s \<noteq> []" by (rule assms(12))
  qed
  from uploaded_session [OF assms(1-7) this] assms(12) show ?thesis by simp
qed

theorem delivered_session_witness:
  "capture (ex_env [ex_tick ''a'', stop_tick]
       (Inr \<lparr>status_code = 200, body = Some (JObj [(''url'', JStr ''http://store/x.gif'')])\<rparr>))
     ex_recorder ex_fs = Left_loop one_frame \<and>
   returned (run (ex_env [ex_tick ''a'', stop_tick]
       (Inr \<lparr>status_code = 200, body = Some (JObj [(''url'', JStr ''http://store/x.gif'')])\<rparr>))
     ex_recorder ex_fs) \<and>
   last (trace (final (run (ex_env [ex_tick ''a'', stop_tick]
       (Inr \<lparr>status_code = 200, body = Some (JObj [(''url'', JStr ''http://store/x.gif'')])\<rparr>))
     ex_recorder ex_fs))) = Finished ''http://store/x.gif'' \<and>
   fs (final (run (ex_env [ex_tick ''a'', stop_tick]
       (Inr \<lparr>status_code = 200, body = Some (JObj [(''url'', JStr ''http://store/x.gif'')])\<rparr>))
     ex_recorder ex_fs)) ''/t/frame_000000.png'' = None \<and>
   fs (final (run (ex_env [ex_tick ''a'', stop_tick]
       (Inr \<lparr>status_code = 200, body = Some (JObj [(''url'', JStr ''http://store/x.gif'')])\<rparr>))
     ex_recorder ex_fs)) ''/t/recording_5.gif'' = Some (Gif [''a''] 10)"
proof -
  let ?resp = "\<lparr>status_code = 200, body = Some (JObj [(''url'', JStr ''http://store/x.gif'')])\<rparr>"
  let ?e = "ex_env [ex_tick ''a'', stop_tick] (Inr ?resp)"
  have c: "capture ?e ex_recorder ex_fs = Left_loop one_frame" by (rule capture_one_frame)
  have h: "mss_init ?e = None" "fps ex_recorder \<noteq> 0" "frame_paths one_frame \<noteq> []"
    "mimsave ?e = None" "server_url ex_recorder = Some ''http://store''" "''http://store'' \<noteq> []"
    "post ?e = Inr ?resp" "status_code ?resp = 200"
    "body ?resp = Some (JObj [(''url'', JStr ''http://store/x.gif'')])"
    "map_of (rev [(''url'', JStr ''http://store/x.gif'')]) ''url'' = Some (JStr ''http://store/x.gif'')"
    "''http://store/x.gif'' \<noteq> []"
    by (simp_all add: ex_defs)
  have v: "tmpdir ex_recorder = ''/t''" "fps ex_recorder = 10" "gif_time ?e = 5"
    "saves (trace one_frame) = [(''/t/frame_000000.png'', ''a'')]"
    "frame_paths one_frame = [''/t/frame_000000.png'']"
    by (simp_all add: ex_defs)
  show ?thesis
    using delivered_session [OF h(1) h(2) c h(3) h(4) h(5) h(6) h(7) h(8) h(9) h(10) h(11)] c v
    by (simp add: ex_paths)
qed

text \<open>
  C2, as the code has it: when the upload raises or the store answers with a status other
  than 200, \<^verbatim>\<open>run\<close> still returns, the result is the path of the artifact, and the artifact
  is on disk; the frame files, however, are removed exactly as after a successful upload
  (the cleanup loop of lines 546 to 550 does not depend on the outcome of the upload).
\<close>

theorem failed_delivery_session:
  assumes "mss_init e = None" and "fps r \<noteq> 0"
    and "capture e r f = Left_loop st" and "frame_paths st \<noteq> []" and "mimsave e = None"
    and "server_url r = Some u" and "u \<noteq> []"
    and "post e = Inl err \<or> (\<exists>resp. post e = Inr resp \<and> status_code resp \<noteq> 200)"
  shows "returned (run e r f) \<and>
         last (trace (final (run e r f))) = Finished (recording_path (tmpdir r) (gif_time e)) \<and>
         fs (final (run e r f)) (recording_path (tmpdir r) (gif_time e)) =
           Some (Gif (map snd (saves (trace st))) (fps r)) \<and>
         (\<forall>p \<in> set (frame_paths st). fs (final (run e r f)) p = None)"
proof -
  have "upload e (recording_path (tmpdir r) (gif_time e)) st' = JStr []" for st'
    using assms(8) by (rule upload_failed)
  from uploaded_session [OF assms(1-7) this] show ?thesis by simp
qed

theorem failed_delivery_session_witness:
  "capture (ex_env [ex_tick ''a'', stop_tick] (Inr \<lparr>status_code = 500, body = None\<rparr>))
     ex_recorder ex_fs = Left_loop one_frame \<and>
   returned (run (ex_env [ex_tick ''a'', stop_tick] (Inr \<lparr>status_code = 500, body = None\<rparr>))
     ex_recorder ex_fs) \<and>
   last (trace (final (run (ex_env [ex_tick ''a'', stop_tick]
       (Inr \<lparr>status_code = 500, body = None\<rparr>)) ex_recorder ex_fs))) =
     Finished ''/t/recording_5.gif'' \<and>
   fs (final (run (ex_env [ex_tick ''a'', stop_tick] (Inr \<lparr>status_code = 500, body = None\<rparr>))
     ex_recorder ex_fs)) ''/t/recording_5.gif'' = Some (Gif [''a''] 10) \<and>
   fs (final (run (ex_env [ex_tick ''a'', stop_tick] (Inr \<lparr>status_code = 500, body = None\<rparr>))
     ex_recorder ex_fs)) ''/t/frame_000000.png'' = None"
proof -
  let ?resp = "\<lparr>status_code = 500, body = None\<rparr>"
  let ?e = "ex_env [ex_tick ''a'', stop_tick] (Inr ?resp)"
  have c: "capture ?e ex_recorder ex_fs = Left_loop one_frame" by (rule capture_one_frame)
  have h: "mss_init ?e = None" "fps ex_recorder \<noteq> 0" "frame_paths one_frame \<noteq> []"
    "mimsave ?e = None" "server_url ex_recorder = Some ''http://store''" "''http://store'' \<noteq> []"
    "post ?e = Inl ''none'' \<or> (\<exists>resp. post ?e = Inr resp \<and> status_code resp \<noteq> 200)"
    by (simp_all add: ex_defs)
  have v: "tmpdir ex_recorder = ''/t''" "fps ex_recorder = 10" "gif_time ?e = 5"
    "saves (trace one_frame) = [(''/t/frame_000000.png'', ''a'')]"
    "frame_paths one_frame = [''/t/frame_000000.png'']"
    by (simp_all add: ex_defs)
  show ?thesis
    using failed_delivery_session [OF h(1) h(2) c h(3) h(4) h(5) h(6) h(7)] c v
    by (simp add: ex_paths)
qed

text \<open>
  The property as the specification states it fails on a session of one frame whose upload times out: the frame
  file, on disk when the loop is left, is gone when \<^verbatim>\<open>run\<close> returns with the local path.
\<close>

theorem frames_retained_counterexample:
  "capture (ex_env [ex_tick ''a'', stop_tick] (Inl ''timeout'')) ex_recorder ex_fs =
     Left_loop one_frame \<and>
   server_url ex_recorder = Some ''http://store'' \<and>
   post (ex_env [ex_tick ''a'', stop_tick] (Inl ''timeout'')) = Inl ''timeout'' \<and>
   fs one_frame ''/t/frame_000000.png'' = Some (Png ''a'') \<and>
   returned (run (ex_env [ex_tick ''a'', stop_tick] (Inl ''timeout'')) ex_recorder ex_fs) \<and>
   last (trace (final (run (ex_env [ex_tick ''a'', stop_tick] (Inl ''timeout''))
     ex_recorder ex_fs))) = Finished ''/t/recording_5.gif'' \<and>
   fs (final (run (ex_env [ex_tick ''a'', stop_tick] (Inl ''timeout'')) ex_recorder ex_fs))
     ''/t/frame_000000.png'' = None"
proof -
  let ?e = "ex_env [ex_tick ''a'', stop_tick] (Inl ''timeout'')"
  have c: "capture ?e ex_recorder ex_fs = Left_loop one_frame" by (rule capture_one_frame)
  have h: "mss_init ?e = None" "fps ex_recorder \<noteq> 0" "frame_paths one_frame \<noteq> []"
    "mimsave ?e = None" "server_url ex_recorder = Some ''http://store''" "''http://store'' \<noteq> []"
    by (simp_all add: ex_defs)
  have up: "upload ?e (recording_path (tmpdir ex_recorder) (gif_time ?e)) st' = JStr []" for st'
    by (rule upload_failed) (simp add: ex_defs)
  have v: "tmpdir ex_recorder = ''/t''" "fps ex_recorder = 10" "gif_time ?e = 5"
    "post ?e = Inl ''timeout''"
    "fs one_frame ''/t/frame_000000.png'' = Some (Png ''a'')"
    "frame_paths one_frame = [''/t/frame_000000.png'']"
    by (simp_all add: ex_defs)
  show ?thesis
    using uploaded_session [OF h(1) h(2) c h(3) h(4) h(5) h(6) up] c v h(5)
    by (simp add: ex_paths)
qed

text \<open>
  C8, as the code has it: in a session with frames and a configured store, an upload that
  raises and an answer with any status other than 200 both give the local path of the
  artifact as the result; an answer with status 200 whose JSON object has a string \<^verbatim>\<open>url\<close>
  that is not empty gives that string as the result.
\<close>

theorem delivery_outcome:
  assumes "mss_init e = None" and "fps r \<noteq> 0"
    and "capture e r f = Left_loop st" and "frame_paths st \<noteq> []" and "mimsave e = None"
    and "server_url r = Some u" and "u \<noteq> []"
  shows "(post e = Inl err \<or> (post e = Inr resp \<and> status_code resp \<noteq> 200) \<longrightarrow>
           returned (run e r f) \<and>
           last (trace (final (run e r f))) =
             Finished (recording_path (tmpdir r) (gif_time e))) \<and>
         (post e = Inr resp \<and> status_code resp = 200 \<and> body resp = Some (JObj kvs) \<and>
          map_of (rev kvs) ''url'' = Some (JStr s) \<and> s \<noteq> [] \<longrightarrow>
           returned (run e r f) \<and> last (trace (final (run e r f))) = Finished s)"
proof (intro conjI impI)
  assume a: "post e = Inl err \<or> (post e = Inr resp \<and> status_code resp \<noteq> 200)"
  have "upload e (recording_path (tmpdir r) (gif_time e)) st' = JStr []" for st'
    using a by (intro upload_failed) auto
  from uploaded_session [OF assms(1-7) this]
  show "returned (run e r f)"
    and "last (trace (final (run e r f))) = Finished (recording_path (tmpdir r) (gif_time e))"
    by simp_all
next
  assume a: "post e = Inr resp \<and> status_code resp = 200 \<and> body resp = Some (JObj kvs) \<and>
          map_of (rev kvs) ''url'' = Some (JStr s) \<and> s \<noteq> []"
  have "upload e (recording_path (tmpdir r) (gif_time e)) st' = JStr s"
    if "fs st' (recording_path (tmpdir r) (gif_time e)) \<noteq> None" for st'
  proof (rule upload_delivered [OF that])
    show "post e = Inr resp" "status_code resp = 200" "body resp = Some (JObj kvs)" "s \<noteq> []"
      using a by simp_all
    show "json_get (JObj kvs) ''url'' (JStr []) = Inr (JStr s)"
      using a by (simp add: json_get_obj)
  qed
  from uploaded_session [OF assms(1-7) this] a
  show "returned (run e r f)" and "last (trace (final (run e r f))) = Finished s"
    by simp_all
qed

theorem delivery_outcome_witness:
  "last (trace (final (run (ex_env [ex_tick ''a'', stop_tick]
       (Inr \<lparr>status_code = 404, body = Some (JObj [(''url'', JStr ''http://store/x.gif'')])\<rparr>))
     ex_recorder ex_fs))) = Finished ''/t/recording_5.gif'' \<and>
   last (trace (final (run (ex_env [ex_tick ''a'', stop_tick]
       (Inr \<lparr>status_code = 200, body = Some (JObj [(''url'', JStr ''http://store/x.gif'')])\<rparr>))
     ex_recorder ex_fs))) = Finished ''http://store/x.gif''"
proof -
  let ?kvs = "[(''url'', JStr ''http://store/x.gif'')]"
  let ?bad = "\<lparr>status_code = 404, body = Some (JObj ?kvs)\<rparr>"
  let ?good = "\<lparr>status_code = 200, body = Some (JObj ?kvs)\<rparr>"
  let ?e1 = "ex_env [ex_tick ''a'', stop_tick] (Inr ?bad)"
  let ?e2 = "ex_env [ex_tick ''a'', stop_tick] (Inr ?good)"
  have c1: "capture ?e1 ex_recorder ex_fs = Left_loop one_frame" by (rule capture_one_frame)
  have c2: "capture ?e2 ex_recorder ex_fs = Left_loop one_frame" by (rule capture_one_frame)
  have h: "fps ex_recorder \<noteq> 0" "frame_paths one_frame \<noteq> []"
    "server_url ex_recorder = Some ''http://store''" "''http://store'' \<noteq> []"
    by (simp_all add: ex_defs)
  have h1: "mss_init ?e1 = None" "mimsave ?e1 = None"
    "post ?e1 = Inl [] \<or> (post ?e1 = Inr ?bad \<and> status_code ?bad \<noteq> 200)"
    by (simp_all add: ex_defs)
  have h2: "mss_init ?e2 = None" "mimsave ?e2 = None"
    "post ?e2 = Inr ?good \<and> status_code ?good = 200 \<and> body ?good = Some (JObj ?kvs) \<and>
     map_of (rev ?kvs) ''url'' = Some (JStr ''http://store/x.gif'') \<and> ''http://store/x.gif'' \<noteq> []"
    by (simp_all add: ex_defs)
  have v: "tmpdir ex_recorder = ''/t''" "gif_time ?e1 = 5"
    by (simp_all add: ex_defs)
  have "last (trace (final (run ?e1 ex_recorder ex_fs))) =
        Finished (recording_path (tmpdir ex_recorder) (gif_time ?e1))"
    using delivery_outcome [OF h1(1) h(1) c1 h(2) h1(2) h(3) h(4), of "[]" ?bad] h1(3)
    by blast
  then have a: "last (trace (final (run ?e1 ex_recorder ex_fs))) = Finished ''/t/recording_5.gif''"
    by (simp only: v ex_paths)
  have b: "last (trace (final (run ?e2 ex_recorder ex_fs))) = Finished ''http://store/x.gif''"
    using delivery_outcome [OF h2(1) h(1) c2 h(2) h2(2) h(3) h(4),
        of "[]" ?good ?kvs "''http://store/x.gif''"] h2(3)
    by blast
  from a b show ?thesis by (rule conjI)
qed

text \<open>
  The property as the specification states it fails for a status in the 200 range other than 200: the store answers
  201 with a \<^verbatim>\<open>url\<close>, and the result is the local path, not that \<^verbatim>\<open>url\<close>.
\<close>

theorem status_201_counterexample:
  "capture (ex_env [ex_tick ''a'', stop_tick]
       (Inr \<lparr>status_code = 201, body = Some (JObj [(''url'', JStr ''http://store/x.gif'')])\<rparr>))
     ex_recorder ex_fs = Left_loop one_frame \<and>
   server_url ex_recorder = Some ''http://store'' \<and>
   returned (run (ex_env [ex_tick ''a'', stop_tick]
       (Inr \<lparr>status_code = 201, body = Some (JObj [(''url'', JStr ''http://store/x.gif'')])\<rparr>))
     ex_recorder ex_fs) \<and>
   last (trace (final (run (ex_env [ex_tick ''a'', stop_tick]
       (Inr \<lparr>status_code = 201, body = Some (JObj [(''url'', JStr ''http://store/x.gif'')])\<rparr>))
     ex_recorder ex_fs))) = Finished ''/t/recording_5.gif'' \<and>
   last (trace (final (run (ex_env [ex_tick ''a'', stop_tick]
       (Inr \<lparr>status_code = 201, body = Some (JObj [(''url'', JStr ''http://store/x.gif'')])\<rparr>))
     ex_recorder ex_fs))) \<noteq> Finished ''http://store/x.gif''"
proof -
  let ?resp = "\<lparr>status_code = 201, body = Some (JObj [(''url'', JStr ''http://store/x.gif'')])\<rparr>"
  let ?e = "ex_env [ex_tick ''a'', stop_tick] (Inr ?resp)"
  have c: "capture ?e ex_recorder ex_fs = Left_loop one_frame" by (rule capture_one_frame)
  have h: "mss_init ?e = None" "fps ex_recorder \<noteq> 0" "frame_paths one_frame \<noteq> []"
    "mimsave ?e = None" "server_url ex_recorder = Some ''http://store''" "''http://store'' \<noteq> []"
    by (simp_all add: ex_defs)
  have up: "upload ?e (recording_path (tmpdir ex_recorder) (gif_time ?e)) st' = JStr []" for st'
    by (rule upload_failed) (simp add: ex_defs)
  have v: "tmpdir ex_recorder = ''/t''" "gif_time ?e = 5"
    by (simp_all add: ex_defs)
  show ?thesis
    using uploaded_session [OF h(1) h(2) c h(3) h(4) h(5) h(6) up] c v h(5)
    by (simp add: ex_paths)
qed

subsection \<open>An answer without a reference\<close>

lemma capture_post [simp]: "capture (e\<lparr>post := p\<rparr>) r f = capture e r f"
  by (simp add: capture_def)

lemma run_no_reference:
  assumes "mss_init e = None" and "fps r \<noteq> 0"
    and "capture e r f = Left_loop st" and "frame_paths st \<noteq> []" and "mimsave e = None"
    and "server_url r = Some u" and "u \<noteq> []"
    and up: "\<And>st'. upload e (recording_path (tmpdir r) (gif_time e)) st' = JStr []"
  shows "run e r f =
     Returned (st\<lparr>trace := trace st @
                   [Progress ''assembling'', Progress ''uploading'',
                    Post (rstrip_slash u @ ''/upload'') (recording_path (tmpdir r) (gif_time e)),
                    Finished (recording_path (tmpdir r) (gif_time e))],
                 fs := cleanup (frame_paths st)
                   ((fs st)(recording_path (tmpdir r) (gif_time e) \<mapsto>
                      Gif (map snd (saves (trace st))) (fps r)))\<rparr>)"
proof -
  have sp: "spooled st" using assms(3) by (rule capture_spooled)
  have cf: "tmpdir (self st) = tmpdir r" "fps (self st) = fps r"
    "server_url (self st) = server_url r"
    using assms(3) capture_tmpdir by blast+
  have run: "run e r f = finish e st" using assms(1-3) by (rule run_finish)
  have su: "server_url (self st) = Some u" using cf assms(6) by simp
  have "upload e (recording_path (tmpdir (self st)) (gif_time e))
       (st\<lparr>fs := (fs st)(recording_path (tmpdir (self st)) (gif_time e) \<mapsto>
              Gif (map snd (saves (trace st))) (fps (self st))),
           trace := trace st @
              [Progress ''assembling'', Progress ''uploading'',
               Post (rstrip_slash u @ ''/upload'')
                 (recording_path (tmpdir (self st)) (gif_time e))]\<rparr>) = JStr []"
    using up cf by simp
  from finish_upload [OF sp assms(4,5) su assms(7) this] run cf show ?thesis by simp
qed

text \<open>
  C10: when the store answers with status 200 and a JSON object whose \<^verbatim>\<open>url\<close> is missing,
  the empty string or \<^verbatim>\<open>null\<close>, \<^verbatim>\<open>run\<close> returns with the local path of the artifact as the
  result, and the whole run is the one of the same session with an upload that raises.
\<close>

theorem missing_url_falls_back:
  assumes "mss_init e = None" and "fps r \<noteq> 0"
    and "capture e r f = Left_loop st" and "frame_paths st \<noteq> []" and "mimsave e = None"
    and "server_url r = Some u" and "u \<noteq> []"
    and "post e = Inr resp" and "status_code resp = 200" and "body resp = Some (JObj kvs)"
    and "map_of (rev kvs) ''url'' = None \<or> map_of (rev kvs) ''url'' = Some (JStr []) \<or>
         map_of (rev kvs) ''url'' = Some JNull"
  shows "returned (run e r f) \<and>
         last (trace (final (run e r f))) = Finished (recording_path (tmpdir r) (gif_time e)) \<and>
         run e r f = run (e\<lparr>post := Inl err\<rparr>) r f"
proof -
  let ?e' = "e\<lparr>post := Inl err\<rparr>"
  have up: "upload e (recording_path (tmpdir r) (gif_time e)) st' = JStr []" for st'
    using assms(8-11) by (rule upload_no_url)
  have up': "upload ?e' (recording_path (tmpdir r) (gif_time ?e')) st' = JStr []" for st'
    by (rule upload_failed) simp
  have h': "mss_init ?e' = None" "capture ?e' r f = Left_loop st" "mimsave ?e' = None"
    using assms(1,3,5) by simp_all
  have a: "run e r f = Returned (st\<lparr>trace := trace st @
                   [Progress ''assembling'', Progress ''uploading'',
                    Post (rstrip_slash u @ ''/upload'') (recording_path (tmpdir r) (gif_time e)),
                    Finished (recording_path (tmpdir r) (gif_time e))],
                 fs := cleanup (frame_paths st)
                   ((fs st)(recording_path (tmpdir r) (gif_time e) \<mapsto>
                      Gif (map snd (saves (trace st))) (fps r)))\<rparr>)"
    using assms(1-7) up by (rule run_no_reference)
  have b: "run ?e' r f = Returned (st\<lparr>trace := trace st @
                   [Progress ''assembling'', Progress ''uploading'',
                    Post (rstrip_slash u @ ''/upload'') (recording_path (tmpdir r) (gif_time ?e')),
                    Finished (recording_path (tmpdir r) (gif_time ?e'))],
                 fs := cleanup (frame_paths st)
                   ((fs st)(recording_path (tmpdir r) (gif_time ?e') \<mapsto>
                      Gif (map snd (saves (trace st))) (fps r)))\<rparr>)"
    using h'(1) assms(2) h'(2) assms(4) h'(3) assms(6,7) up' by (rule run_no_reference)
  have "run e r f = run ?e' r f" unfolding a b by simp
  with a show ?thesis by simp
qed

theorem missing_url_falls_back_witness:
  "capture (ex_env [ex_tick ''a'', stop_tick]
       (Inr \<lparr>status_code = 200, body = Some (JObj [(''url'', JNull)])\<rparr>))
     ex_recorder ex_fs = Left_loop one_frame \<and>
   returned (run (ex_env [ex_tick ''a'', stop_tick]
       (Inr \<lparr>status_code = 200, body = Some (JObj [(''url'', JNull)])\<rparr>)) ex_recorder ex_fs) \<and>
   last (trace (final (run (ex_env [ex_tick ''a'', stop_tick]
       (Inr \<lparr>status_code = 200, body = Some (JObj [(''url'', JNull)])\<rparr>)) ex_recorder ex_fs))) =
     Finished ''/t/recording_5.gif'' \<and>
   run (ex_env [ex_tick ''a'', stop_tick]
       (Inr \<lparr>status_code = 200, body = Some (JObj [(''url'', JNull)])\<rparr>)) ex_recorder ex_fs =
   run (ex_env [ex_tick ''a'', stop_tick] (Inl ''timeout'')) ex_recorder ex_fs"
proof -
  let ?resp = "\<lparr>status_code = 200, body = Some (JObj [(''url'', JNull)])\<rparr>"
  let ?e = "ex_env [ex_tick ''a'', stop_tick] (Inr ?resp)"
  have c: "capture ?e ex_recorder ex_fs = Left_loop one_frame" by (rule capture_one_frame)
  have h: "mss_init ?e = None" "fps ex_recorder \<noteq> 0" "frame_paths one_frame \<noteq> []"
    "mimsave ?e = None" "server_url ex_recorder = Some ''http://store''" "''http://store'' \<noteq> []"
    "post ?e = Inr ?resp" "status_code ?resp = 200" "body ?resp = Some (JObj [(''url'', JNull)])"
    "map_of (rev [(''url'', JNull)]) ''url'' = None \<or>
     map_of (rev [(''url'', JNull)]) ''url'' = Some (JStr []) \<or>
     map_of (rev [(''url'', JNull)]) ''url'' = Some JNull"
    by (simp_all add: ex_defs)
  have v: "tmpdir ex_recorder = ''/t''" "gif_time ?e = 5"
    "?e\<lparr>post := Inl ''timeout''\<rparr> = ex_env [ex_tick ''a'', stop_tick] (Inl ''timeout'')"
    by (simp_all add: ex_defs)
  have p: "recording_path (tmpdir ex_recorder) (gif_time ?e) = ''/t/recording_5.gif''"
    by (simp only: v ex_paths)
  show ?thesis
    using missing_url_falls_back [OF h(1) h(2) c h(3) h(4) h(5) h(6) h(7) h(8) h(9) h(10),
        of "''timeout''"] c
    unfolding p v(3) by blast
qed

subsection \<open>Pacing\<close>

text \<open>
  C9: a pass through the loop body that grabs and saves a frame, in a session that is
  neither stopped nor paused when the flags are read, ends with one sleep of
  \<open>1 / fps - elapsed\<close> when that is positive and with no sleep otherwise, \<open>elapsed\<close> being
  the difference of the two clock readings: the time slept is \<open>max 0 (1 / fps - elapsed)\<close>.
  The loop then goes on with the next pass.
\<close>

theorem sleep_remainder:
  assumes "\<not> stop_flag (self (control (before_stop_check k) st))"
    and "\<not> pause_flag (self (control (before_pause_check k) (control (before_stop_check k) st)))"
    and "iteration (1 / real_of_int (fps (self st))) k
           (control (before_pause_check k) (control (before_stop_check k) st)) = Inr st'"
  shows "capture_loop (1 / real_of_int (fps (self st))) (k # ks) st =
           capture_loop (1 / real_of_int (fps (self st))) ks st' \<and>
         (\<exists>img. grab k = Inr img \<and>
            trace st' = trace st @
              [Grab (bbox (self st)), Save (frame_path_of (tmpdir (self st)) (frame_num st)) img] @
              (if t1 k - t0 k < 1 / real_of_int (fps (self st))
               then [Sleep (1 / real_of_int (fps (self st)) - (t1 k - t0 k))] else [])) \<and>
         slept (trace st') - slept (trace st) =
           max 0 (1 / real_of_int (fps (self st)) - (t1 k - t0 k))"
proof -
  let ?iv = "1 / real_of_int (fps (self st))"
  let ?st2 = "control (before_pause_check k) (control (before_stop_check k) st)"
  have step: "capture_loop ?iv (k # ks) st = capture_loop ?iv ks st'"
    using assms by (simp add: Let_def)
  obtain img where g: "grab k = Inr img" and s: "save k = Save_ok"
    using assms(3) by (auto simp: iteration_def Let_def split: sum.splits save_outcome.splits)
  have tr: "trace st' = trace st @
      [Grab (bbox (self st)), Save (frame_path_of (tmpdir (self st)) (frame_num st)) img] @
      (if t1 k - t0 k < ?iv then [Sleep (?iv - (t1 k - t0 k))] else [])"
    using assms(3) g s by (auto simp: iteration_def Let_def sleep_def split: if_splits)
  have "slept (trace st') - slept (trace st) = max 0 (?iv - (t1 k - t0 k))"
    unfolding tr by simp
  with step g tr show ?thesis by blast
qed

theorem sleep_remainder_witness:
  "iteration (1 / real_of_int (fps (self (emit_progress ''recording'' ex_state)))) (ex_tick ''a'')
     (emit_progress ''recording'' ex_state) = Inr (one_frame\<lparr>self := ex_recorder\<rparr>) \<and>
   t1 (ex_tick ''a'') - t0 (ex_tick ''a'') = 1 / 50 \<and>
   slept (trace (one_frame\<lparr>self := ex_recorder\<rparr>)) -
     slept (trace (emit_progress ''recording'' ex_state)) = 2 / 25"
proof -
  let ?st = "emit_progress ''recording'' ex_state"
  let ?k = "ex_tick ''a''"
  have c: "control (before_pause_check ?k) (control (before_stop_check ?k) ?st) = ?st"
    by (simp add: ex_defs run_defs)
  have h: "\<not> stop_flag (self (control (before_stop_check ?k) ?st))"
    "\<not> pause_flag (self (control (before_pause_check ?k) (control (before_stop_check ?k) ?st)))"
    by (simp_all add: ex_defs run_defs)
  have i: "iteration (1 / real_of_int (fps (self ?st))) ?k ?st = Inr (one_frame\<lparr>self := ex_recorder\<rparr>)"
    by (simp add: ex_defs run_defs Let_def ex_paths)
  have i': "iteration (1 / real_of_int (fps (self ?st))) ?k
      (control (before_pause_check ?k) (control (before_stop_check ?k) ?st)) =
      Inr (one_frame\<lparr>self := ex_recorder\<rparr>)"
    unfolding c by (rule i)
  have v: "t1 ?k - t0 ?k = 1 / 50" "1 / real_of_int (fps (self ?st)) = 1 / 10"
    by (simp_all add: ex_defs run_defs)
  have "slept (trace (one_frame\<lparr>self := ex_recorder\<rparr>)) - slept (trace ?st) =
      max 0 (1 / real_of_int (fps (self ?st)) - (t1 ?k - t0 ?k))"
    using sleep_remainder [OF h(1) h(2) i', of "[]"] by blast
  then have "slept (trace (one_frame\<lparr>self := ex_recorder\<rparr>)) - slept (trace ?st) = 2 / 25"
    unfolding v by simp
  with i v(1) show ?thesis by blast
qed

subsection \<open>Pausing\<close>


lemma fold_call_not_stopped:
  "\<not> stop_flag r \<Longrightarrow> Stop \<notin> set cs \<Longrightarrow> \<not> stop_flag (fold call cs r)"
proof (induction cs arbitrary: r)
  case Nil
  then show ?case by simp
next
  case (Cons c cs)
  then show ?case by (cases c) (simp_all add: pause_def resume_def)
qed







subsection \<open>A failing capture\<close>






lemma emit_final_progress [simp]:
  "progress (trace (final (emit_final v st))) = progress (trace st)"
  by (cases v) (simp_all add: emit_final_def emit_finished_def)

lemma emit_final_saves [simp]:
  "saves (trace (final (emit_final v st))) = saves (trace st)"
  by (cases v) (simp_all add: emit_final_def emit_finished_def)




lemma handler_fields [simp]:
  "frame_paths (handler e st) = frame_paths st" "frame_num (handler e st) = frame_num st"
  "fs (handler e st) = fs st" "trace (handler e st) = trace st @ [Progress (''error: '' @ e)]"
  by (simp_all add: handler_def emit_progress_def Let_def)





end
